theory Spec2Isabelle
  imports Complex_Main "HOL-Library.Multiset"
begin

section \<open>Tensor scalars\<close>

text \<open>
  The entries of the float tensors that \<open>map_roi_levels\<close> computes. The special
  values of
  IEEE arithmetic are kept (\<open>torch.sqrt\<close> of a negative number is NaN,
  \<open>torch.log2\<close> of zero
  is minus infinity); arithmetic on finite values is exact, so rounding is not modelled.
  The coordinates of an RoI are finite numbers.
\<close>

datatype fp = NaN | NegInf | PosInf | Fin real

text \<open>\<open>torch.sqrt\<close>, applied to the finite product width times height.\<close>

definition torch_sqrt :: "real \<Rightarrow> fp" where
  "torch_sqrt x = (if x < 0 then NaN else Fin (sqrt x))"

text \<open>Division of a tensor entry by the Python number \<open>self.finest_scale\<close>.\<close>

fun div_scalar :: "fp \<Rightarrow> real \<Rightarrow> fp" where
  "div_scalar NaN c = NaN"
| "div_scalar (Fin x) c =
     (if c = 0 then (if x = 0 then NaN else if 0 < x then PosInf else NegInf)
      else Fin (x / c))"
| "div_scalar PosInf c = (if c < 0 then NegInf else PosInf)"
| "div_scalar NegInf c = (if c < 0 then PosInf else NegInf)"

text \<open>Addition of a Python number to a tensor entry.\<close>

fun add_scalar :: "fp \<Rightarrow> real \<Rightarrow> fp" where
  "add_scalar (Fin x) c = Fin (x + c)"
| "add_scalar v c = v"

fun torch_log2 :: "fp \<Rightarrow> fp" where
  "torch_log2 (Fin x) = (if x < 0 then NaN else if x = 0 then NegInf else Fin (log 2 x))"
| "torch_log2 PosInf = PosInf"
| "torch_log2 NegInf = NaN"
| "torch_log2 NaN = NaN"

fun torch_floor :: "fp \<Rightarrow> fp" where
  "torch_floor (Fin x) = Fin (of_int \<lfloor>x\<rfloor>)"
| "torch_floor v = v"

text \<open>\<open>Tensor.clamp(min=lo, max=hi)\<close>: \<open>min(max(x, lo), hi)\<close> entrywise; NaN stays NaN.\<close>

fun clamp :: "real \<Rightarrow> real \<Rightarrow> fp \<Rightarrow> fp" where
  "clamp lo hi (Fin x) = Fin (min (max x lo) hi)"
| "clamp lo hi PosInf = Fin hi"
| "clamp lo hi NegInf = Fin (min lo hi)"
| "clamp lo hi NaN = NaN"

text \<open>
  \<open>Tensor.long()\<close>: a finite entry is truncated towards zero. The conversion of
  NaN or of
  an infinity to a 64-bit integer is not defined by the library and depends on the
  platform (x86 processors give \<open>- 2 ^ 63\<close>); that value is the parameter
  \<open>nan_long\<close>.
\<close>

fun to_long :: "int \<Rightarrow> fp \<Rightarrow> int" where
  "to_long nan_long (Fin x) = (if 0 \<le> x then \<lfloor>x\<rfloor> else \<lceil>x\<rceil>)"
| "to_long nan_long v = nan_long"

section \<open>RoIs and level assignment\<close>

text \<open>A row of the \<open>(k, 5)\<close> RoI tensor: columns 0 to 4.\<close>

record roi =
  batch :: real
  x1 :: real
  y1 :: real
  x2 :: real
  y2 :: real

text \<open>\<open>scale = torch.sqrt((rois[:, 3] - rois[:, 1]) * (rois[:, 4] - rois[:, 2]))\<close>\<close>

definition roi_scale :: "roi \<Rightarrow> fp" where
  "roi_scale r = torch_sqrt ((x2 r - x1 r) * (y2 r - y1 r))"

text \<open>
  \<open>torch.floor(torch.log2(scale / self.finest_scale + 1e-6))\<close> followed by
  \<open>.clamp(min=0, max=num_levels - 1)\<close>, for one RoI: the float entry before
  \<open>.long()\<close>.
\<close>

definition target_lvl_fp :: "real \<Rightarrow> int \<Rightarrow> roi \<Rightarrow> fp" where
  "target_lvl_fp finest_scale num_levels r =
     clamp 0 (of_int (num_levels - 1))
       (torch_floor (torch_log2
          (add_scalar (div_scalar (roi_scale r) finest_scale) (1 / 1000000))))"

definition map_roi_level :: "real \<Rightarrow> int \<Rightarrow> int \<Rightarrow> roi \<Rightarrow> int" where
  "map_roi_level finest_scale nan_long num_levels r =
     to_long nan_long (target_lvl_fp finest_scale num_levels r)"

text \<open>\<open>SingleRoIExtractor.map_roi_levels\<close>: the level index of each RoI.\<close>

definition map_roi_levels :: "real \<Rightarrow> int \<Rightarrow> roi list \<Rightarrow> int \<Rightarrow> int list" where
  "map_roi_levels finest_scale nan_long rois num_levels =
     map (map_roi_level finest_scale nan_long num_levels) rois"

section \<open>The forward pass\<close>

datatype error = IndexError | RuntimeError | PoolerError

text \<open>
  A level pooler (an entry of \<open>self.roi_layers\<close>) is an injected collaborator:
  given a
  feature map and RoIs it returns the pooled rows, or raises (\<open>None\<close>).
\<close>

type_synonym ('f, 'a) pooler = "'f \<Rightarrow> roi list \<Rightarrow> 'a list option"

text \<open>\<open>torch.nonzero(mask.int()).view(-1)\<close>: the positions of the true entries, ascending.\<close>

definition nonzero :: "bool list \<Rightarrow> nat list" where
  "nonzero bs = filter (\<lambda>i. bs ! i) [0..<length bs]"

text \<open>Indexing a tensor by a tensor of indices, \<open>xs[idx]\<close>; an index out of range raises.\<close>

definition index_select :: "'a list \<Rightarrow> nat list \<Rightarrow> error + 'a list" where
  "index_select xs idx =
     (if list_all (\<lambda>i. i < length xs) idx then Inr (map (nth xs) idx) else Inl IndexError)"

text \<open>\<open>torch.cat(ts, dim=0)\<close>: raises on an empty list of tensors.\<close>

definition torch_cat :: "'a list list \<Rightarrow> error + 'a list" where
  "torch_cat ts = (if ts = [] then Inl RuntimeError else Inr (concat ts))"

text \<open>
  Modelled from the spec: \<open>BaseRoIExtractor.roi_rescale\<close> is not among the
  sources. The
  spec says that all RoI boxes are rescaled by \<open>roi_scale_factor\<close>, uniformly; the
  rescaling of one box is the parameter \<open>rescale\<close>.
\<close>

definition roi_rescale :: "(real \<Rightarrow> roi \<Rightarrow> roi) \<Rightarrow> roi list \<Rightarrow> real \<Rightarrow> roi list" where
  "roi_rescale rescale rois scale_factor = map (rescale scale_factor) rois"

text \<open>
  Modelled from the spec: \<open>mmdet.core.utils.misc.topk\<close> is not among the
  sources. Called
  with \<open>largest=False\<close> it gives the \<open>k\<close> smallest entries in
  ascending order together
  with their positions; with \<open>k\<close> the length of the input this is the argsort
  that the
  spec describes. Equal entries keep their order (they do not occur in \<open>forward\<close>).
\<close>

definition topk :: "nat list \<Rightarrow> nat \<Rightarrow> error + (nat list \<times> nat list)" where
  "topk x k =
     (if length x < k then Inl RuntimeError
      else let ps = take k (sort_key fst (zip x [0..<length x]))
           in Inr (map fst ps, map snd ps))"

text \<open>
  \<open>level_indices = torch.nonzero((target_lvls == level).int()).view(-1)\<close>: the
  positions
  of the RoIs whose assigned level is \<open>level\<close>.
\<close>

definition select_level :: "int list \<Rightarrow> nat \<Rightarrow> nat list" where
  "select_level target_lvls level = nonzero (map (\<lambda>t. t = int level) target_lvls)"

text \<open>
  The loop of \<open>forward\<close> over \<open>enumerate(zip(feats,
  self.roi_layers))\<close>, with the lists
  \<open>indices\<close> and \<open>roi_feats\<close> as accumulators. An exception of the
  pooler is swallowed
  (\<open>except: pass\<close>): nothing is appended to \<open>roi_feats\<close> for that
  level.
\<close>

fun level_loop ::
  "int list \<Rightarrow> roi list \<Rightarrow> nat \<Rightarrow> ('f \<times> ('f, 'a) pooler) list \<Rightarrow>
   nat list list \<Rightarrow> 'a list list \<Rightarrow> error + (nat list list \<times> 'a list list)" where
  "level_loop target_lvls rois level [] indices roi_feats = Inr (indices, roi_feats)"
| "level_loop target_lvls rois level ((feat, extractor) # rest) indices roi_feats =
     (let level_indices = select_level target_lvls level
      in case index_select rois level_indices of
           Inl e \<Rightarrow> Inl e
         | Inr level_rois \<Rightarrow>
             level_loop target_lvls rois (Suc level) rest (indices @ [level_indices])
               (case extractor feat level_rois of
                  Some level_feats \<Rightarrow> roi_feats @ [level_feats]
                | None \<Rightarrow> roi_feats))"

text \<open>
  Lines 70 to 87 of \<open>forward\<close>: level assignment from the boxes as given, the
  optional
  rescaling, and the loop. The result is the pair of lists \<open>(indices, roi_feats)\<close>.
\<close>

definition forward_route ::
  "real \<Rightarrow> int \<Rightarrow> (real \<Rightarrow> roi \<Rightarrow> roi) \<Rightarrow> ('f, 'a) pooler list \<Rightarrow> 'f list \<Rightarrow> roi list \<Rightarrow>
   real option \<Rightarrow> error + (nat list list \<times> 'a list list)" where
  "forward_route finest_scale nan_long rescale roi_layers feats rois roi_scale_factor =
     (let num_levels = int (length feats);
          target_lvls = map_roi_levels finest_scale nan_long rois num_levels;
          rois' = (case roi_scale_factor of
                     None \<Rightarrow> rois
                   | Some s \<Rightarrow> roi_rescale rescale rois s)
      in level_loop target_lvls rois' 0 (zip feats roi_layers) [] [])"

text \<open>Lines 88 to 95: concatenation and the permutation back to the input order.\<close>

definition reassemble :: "nat list list \<Rightarrow> 'a list list \<Rightarrow> error + 'a list" where
  "reassemble indices roi_feats =
     (case torch_cat indices of
        Inl e \<Rightarrow> Inl e
      | Inr idx \<Rightarrow>
          (case topk idx (length idx) of
             Inl e \<Rightarrow> Inl e
           | Inr (vals, perm) \<Rightarrow>
               (case torch_cat roi_feats of
                  Inl e \<Rightarrow> Inl e
                | Inr cat_feats \<Rightarrow> index_select cat_feats perm)))"

text \<open>
  \<open>SingleRoIExtractor.forward\<close>. The decorators (the cast of
  \<open>feats\<close> to 32-bit floats
  and the symbolic adapter for export) do not change the control flow and are left out.
  With no feature map at all the loop does not run and \<open>torch.cat\<close> raises.
\<close>

definition forward ::
  "real \<Rightarrow> int \<Rightarrow> (real \<Rightarrow> roi \<Rightarrow> roi) \<Rightarrow> ('f, 'a) pooler list \<Rightarrow> 'f list \<Rightarrow> roi list \<Rightarrow>
   real option \<Rightarrow> error + 'a list" where
  "forward finest_scale nan_long rescale roi_layers feats rois roi_scale_factor =
     (if length feats = 1 then
        (case roi_layers of
           [] \<Rightarrow> Inl IndexError
         | extractor # _ \<Rightarrow>
             (case extractor (feats ! 0) rois of
                None \<Rightarrow> Inl PoolerError
              | Some out \<Rightarrow> Inr out))
      else
        (case forward_route finest_scale nan_long rescale roi_layers feats rois
                roi_scale_factor of
           Inl e \<Rightarrow> Inl e
         | Inr (indices, roi_feats) \<Rightarrow> reassemble indices roi_feats))"

section \<open>Definitions used in the statements and proofs\<close>

text \<open>
  The level as the specification words it:
  \<open>clamp(floor(log2(sqrt((x2 - x1) * (y2 - y1)) / finest_scale + 1e-6)), 0, num_levels
  - 1)\<close>
  over the real numbers.
\<close>

definition spec_level :: "real \<Rightarrow> int \<Rightarrow> roi \<Rightarrow> int" where
  "spec_level finest_scale num_levels r =
     max 0 (min (num_levels - 1)
       \<lfloor>log 2 (sqrt ((x2 r - x1 r) * (y2 r - y1 r)) / finest_scale + 1 / 1000000)\<rfloor>)"

text \<open>
  The pooled batches that the loop of \<open>forward\<close> collects from level
  \<open>l\<close> on: one entry
  for each level whose pooler returns, none for a level whose pooler raises.
\<close>

fun run_poolers ::
  "int list \<Rightarrow> roi list \<Rightarrow> nat \<Rightarrow> ('f \<times> ('f, 'a) pooler) list \<Rightarrow> 'a list list" where
  "run_poolers lv rois l [] = []"
| "run_poolers lv rois l ((feat, ex) # rest) =
     (case ex feat (map (nth rois) (select_level lv l)) of
        Some out \<Rightarrow> [out] | None \<Rightarrow> []) @ run_poolers lv rois (Suc l) rest"

text \<open>
  The box that \<open>forward\<close> hands to a pooler for an RoI \<open>r\<close>: with
  one level the RoI as given (the fast path ignores \<open>roi_scale_factor\<close>);
  otherwise the rescaled RoI when a scale factor is given.
\<close>

definition pooled_box :: "(real \<Rightarrow> roi \<Rightarrow> roi) \<Rightarrow> nat \<Rightarrow> real option \<Rightarrow> roi \<Rightarrow> roi" where
  "pooled_box rescale num_levels roi_scale_factor r =
     (if num_levels = 1 then r
      else case roi_scale_factor of None \<Rightarrow> r | Some s \<Rightarrow> rescale s r)"

text \<open>
  The RoIs that \<open>forward\<close> hands to the pooler of level \<open>level\<close>:
  with one level all of them (line 68), otherwise \<open>rois[level_indices]\<close> after
  the optional rescaling (line 81).
\<close>

definition level_rois ::
  "real \<Rightarrow> int \<Rightarrow> (real \<Rightarrow> roi \<Rightarrow> roi) \<Rightarrow> nat \<Rightarrow> roi list \<Rightarrow> real option \<Rightarrow> nat \<Rightarrow> roi list" where
  "level_rois finest_scale nan_long rescale num_levels rois roi_scale_factor level =
     (if num_levels = 1 then rois
      else map (nth (case roi_scale_factor of
                       None \<Rightarrow> rois
                     | Some s \<Rightarrow> roi_rescale rescale rois s))
             (select_level (map_roi_levels finest_scale nan_long rois (int num_levels)) level))"

text \<open>
  The single-level path as the specification words it: the pooler of level 0 called directly
  on the full RoI sequence, its output (or its exception) returned unchanged.
\<close>

definition spec_pool_directly :: "('f, 'a) pooler \<Rightarrow> 'f \<Rightarrow> roi list \<Rightarrow> error + 'a list" where
  "spec_pool_directly extractor feat rois =
     (case extractor feat rois of None \<Rightarrow> Inl PoolerError | Some out \<Rightarrow> Inr out)"

text \<open>
  Two boxes used in the examples: sides 10 (scale 10, level 0) and 112 (scale 112, level 1).
\<close>

abbreviation box_10 :: roi where
  "box_10 \<equiv> \<lparr>batch = 0, x1 = 0, y1 = 0, x2 = 10, y2 = 10\<rparr>"

abbreviation box_112 :: roi where
  "box_112 \<equiv> \<lparr>batch = 0, x1 = 0, y1 = 0, x2 = 112, y2 = 112\<rparr>"

section \<open>Level assignment for one RoI\<close>

lemma to_long_of_int: "to_long nl (Fin (of_int m)) = m"
  by simp

lemma clamp_of_int:
  "clamp 0 (of_int hi) (Fin (of_int n)) = Fin (of_int (min (max n 0) hi))"
  by (simp add: min_def max_def)

lemma target_lvl_fp_wellformed:
  assumes "0 < fs" and "0 \<le> (x2 r - x1 r) * (y2 r - y1 r)"
  shows "target_lvl_fp fs K r =
     Fin (of_int (min (max \<lfloor>log 2 (sqrt ((x2 r - x1 r) * (y2 r - y1 r)) / fs + 1 / 1000000)\<rfloor> 0) (K - 1)))"
proof -
  let ?p = "(x2 r - x1 r) * (y2 r - y1 r)"
  have s: "roi_scale r = Fin (sqrt ?p)"
    using assms(2) by (simp add: roi_scale_def torch_sqrt_def)
  have nn: "0 \<le> sqrt ?p / fs" using assms by simp
  have pos: "0 < sqrt ?p / fs + 1 / 1000000" using nn by linarith
  have "add_scalar (div_scalar (roi_scale r) fs) (1 / 1000000) = Fin (sqrt ?p / fs + 1 / 1000000)"
    using assms(1) s by simp
  moreover have "torch_log2 (Fin (sqrt ?p / fs + 1 / 1000000)) = Fin (log 2 (sqrt ?p / fs + 1 / 1000000))"
    using pos by simp
  ultimately show ?thesis
    unfolding target_lvl_fp_def by (simp only: torch_floor.simps clamp_of_int)
qed

lemma map_roi_level_wellformed:
  assumes "0 < fs" and "0 \<le> (x2 r - x1 r) * (y2 r - y1 r)"
  shows "map_roi_level fs nl K r =
     min (max \<lfloor>log 2 (sqrt ((x2 r - x1 r) * (y2 r - y1 r)) / fs + 1 / 1000000)\<rfloor> 0) (K - 1)"
  unfolding map_roi_level_def target_lvl_fp_wellformed[OF assms] by (rule to_long_of_int)

lemma map_roi_level_range:
  assumes "0 < fs" and "0 \<le> (x2 r - x1 r) * (y2 r - y1 r)" and "1 \<le> K"
  shows "0 \<le> map_roi_level fs nl K r \<and> map_roi_level fs nl K r \<le> K - 1"
  unfolding map_roi_level_wellformed[OF assms(1,2)] using assms(3) by auto

lemma map_roi_level_spec:
  assumes "0 < fs" and "0 \<le> (x2 r - x1 r) * (y2 r - y1 r)" and "1 \<le> K"
  shows "map_roi_level fs nl K r = spec_level fs K r"
  unfolding map_roi_level_wellformed[OF assms(1,2)] spec_level_def using assms(3) by auto

lemma map_roi_level_malformed:
  assumes "(x2 r - x1 r) * (y2 r - y1 r) < 0"
  shows "roi_scale r = NaN" "target_lvl_fp fs K r = NaN" "map_roi_level fs nl K r = nl"
  using assms by (simp_all add: map_roi_level_def target_lvl_fp_def roi_scale_def torch_sqrt_def)

lemma map_roi_level_band:
  assumes "0 < fs" and "0 \<le> s" and "(x2 r - x1 r) * (y2 r - y1 r) = s * s"
    and "2 ^ n \<le> s / fs + 1 / 1000000" and "s / fs + 1 / 1000000 < 2 ^ Suc n"
  shows "map_roi_level fs nl K r = min (int n) (K - 1)"
proof -
  have sq: "sqrt ((x2 r - x1 r) * (y2 r - y1 r)) = s"
    using assms(2,3) by (simp add: real_sqrt_mult)
  have p: "0 \<le> (x2 r - x1 r) * (y2 r - y1 r)" using assms(3) by simp
  have "0 \<le> s / fs" using assms(1,2) by simp
  then have pos: "0 < s / fs + 1 / 1000000" by linarith
  have "\<lfloor>log 2 (s / fs + 1 / 1000000)\<rfloor> = int n"
    using assms(4,5) pos by (simp add: floor_log_eq_powr_iff powr_realpow powr_add)
  then show ?thesis
    unfolding map_roi_level_wellformed[OF assms(1) p] sq by simp
qed

lemma map_roi_level_low:
  assumes "0 < fs" and "0 \<le> s" and "(x2 r - x1 r) * (y2 r - y1 r) = s * s"
    and "s / fs + 1 / 1000000 < 2"
  shows "map_roi_level fs nl K r = min 0 (K - 1)"
proof -
  have sq: "sqrt ((x2 r - x1 r) * (y2 r - y1 r)) = s"
    using assms(2,3) by (simp add: real_sqrt_mult)
  have p: "0 \<le> (x2 r - x1 r) * (y2 r - y1 r)" using assms(3) by simp
  have "0 \<le> s / fs" using assms(1,2) by simp
  then have pos: "0 < s / fs + 1 / 1000000" by linarith
  have "log 2 (s / fs + 1 / 1000000) < 1"
    using assms(4) pos by (simp add: log_less_iff)
  then have "\<lfloor>log 2 (s / fs + 1 / 1000000)\<rfloor> \<le> 0"
    by (simp add: floor_le_iff)
  then show ?thesis
    unfolding map_roi_level_wellformed[OF assms(1) p] sq by simp
qed

section \<open>The loop and the reassembly permutation\<close>

lemma select_level_filter:
  "select_level lv l = filter (\<lambda>i. lv ! i = int l) [0..<length lv]"
  by (auto simp: select_level_def nonzero_def intro: filter_cong)

lemma select_level_bound: "i \<in> set (select_level lv l) \<Longrightarrow> i < length lv"
  by (simp add: select_level_filter)

lemma index_select_ok:
  "(\<And>i. i \<in> set idx \<Longrightarrow> i < length xs) \<Longrightarrow> index_select xs idx = Inr (map (nth xs) idx)"
  by (simp add: index_select_def list_all_iff)

lemma level_loop_eq:
  assumes "length rois = length lv"
  shows "level_loop lv rois l zs ind rf =
     Inr (ind @ map (select_level lv) [l..<l + length zs], rf @ run_poolers lv rois l zs)"
proof (induction zs arbitrary: l ind rf)
  case Nil
  then show ?case by simp
next
  case (Cons z zs)
  obtain feat ex where z: "z = (feat, ex)" by (cases z)
  have sel: "index_select rois (select_level lv l) = Inr (map (nth rois) (select_level lv l))"
    by (rule index_select_ok) (simp add: assms select_level_bound)
  have upt: "[l..<l + length (z # zs)] = l # [Suc l..<Suc l + length zs]"
    by (subst upt_rec) simp
  have "level_loop lv rois l (z # zs) ind rf =
      level_loop lv rois (Suc l) zs (ind @ [select_level lv l])
        (case ex feat (map (nth rois) (select_level lv l)) of
           Some level_feats \<Rightarrow> rf @ [level_feats] | None \<Rightarrow> rf)"
    by (simp add: z sel Let_def)
  also have "\<dots> = Inr ((ind @ [select_level lv l]) @ map (select_level lv) [Suc l..<Suc l + length zs],
      (case ex feat (map (nth rois) (select_level lv l)) of
           Some level_feats \<Rightarrow> rf @ [level_feats] | None \<Rightarrow> rf) @ run_poolers lv rois (Suc l) zs)"
    by (rule Cons.IH)
  also have "\<dots> = Inr (ind @ map (select_level lv) [l..<l + length (z # zs)],
      rf @ run_poolers lv rois l (z # zs))"
    unfolding upt by (simp add: z split: option.split)
  finally show ?case .
qed

lemma forward_route_eq:
  "forward_route fs nl rescale roi_layers feats rois sf =
     Inr (map (select_level (map_roi_levels fs nl rois (int (length feats))))
            [0..<min (length feats) (length roi_layers)],
          run_poolers (map_roi_levels fs nl rois (int (length feats)))
            (case sf of None \<Rightarrow> rois | Some s \<Rightarrow> roi_rescale rescale rois s) 0
            (zip feats roi_layers))"
proof -
  have len: "length (case sf of None \<Rightarrow> rois | Some s \<Rightarrow> roi_rescale rescale rois s)
      = length (map_roi_levels fs nl rois (int (length feats)))"
    by (simp add: roi_rescale_def map_roi_levels_def split: option.split)
  show ?thesis
    unfolding forward_route_def Let_def level_loop_eq[OF len] by simp
qed

lemma filter_mset_level_step:
  "filter_mset (\<lambda>i. 0 \<le> f i \<and> f i < int K) M + filter_mset (\<lambda>i. f i = int K) M =
   filter_mset (\<lambda>i. 0 \<le> f i \<and> f i < int (Suc K)) M"
  by (induction M) auto

lemma mset_concat_filter_levels:
  "mset (concat (map (\<lambda>l. filter (\<lambda>i. f i = int l) xs) [0..<K])) =
     filter_mset (\<lambda>i. 0 \<le> f i \<and> f i < int K) (mset xs)"
proof (induction K)
  case 0
  then show ?case by simp
next
  case (Suc K)
  have "mset (concat (map (\<lambda>l. filter (\<lambda>i. f i = int l) xs) [0..<Suc K])) =
      mset (concat (map (\<lambda>l. filter (\<lambda>i. f i = int l) xs) [0..<K])) +
      filter_mset (\<lambda>i. f i = int K) (mset xs)"
    by simp
  then show ?case
    unfolding Suc by (simp only: filter_mset_level_step)
qed

lemma mset_concat_select_all:
  assumes "\<And>i. i < length lv \<Longrightarrow> 0 \<le> lv ! i \<and> lv ! i < int K"
  shows "mset (concat (map (select_level lv) [0..<K])) = mset [0..<length lv]"
proof -
  have "filter (\<lambda>i. 0 \<le> lv ! i \<and> lv ! i < int K) [0..<length lv] = [0..<length lv]"
    using assms by (simp add: filter_id_conv)
  then have "filter_mset (\<lambda>i. 0 \<le> lv ! i \<and> lv ! i < int K) (mset [0..<length lv]) =
      mset [0..<length lv]"
    by (simp only: mset_filter[symmetric])
  moreover have "map (select_level lv) [0..<K] =
      map (\<lambda>l. filter (\<lambda>i. lv ! i = int l) [0..<length lv]) [0..<K]"
    by (simp add: select_level_filter)
  ultimately show ?thesis
    by (simp only: mset_concat_filter_levels)
qed

lemma map_fst_argsort:
  "map fst (sort_key fst (zip x [0..<length x])) = sort x"
proof -
  let ?zs = "zip x [0..<length x]"
  have fz: "map fst ?zs = x"
    by (rule map_fst_zip) simp
  have "mset (map fst (sort_key fst ?zs)) = image_mset fst (mset (sort_key fst ?zs))"
    by (rule mset_map)
  also have "\<dots> = image_mset fst (mset ?zs)"
    by (simp only: mset_sort)
  also have "\<dots> = mset (map fst ?zs)"
    by (rule mset_map[symmetric])
  finally have m: "mset (map fst (sort_key fst ?zs)) = mset x"
    unfolding fz .
  have "sort x = map fst (sort_key fst ?zs)"
    by (rule properties_for_sort[OF m]) (rule sorted_sort_key)
  then show ?thesis by (rule sym)
qed

lemma argsort_nth:
  "map (nth x) (map snd (sort_key fst (zip x [0..<length x]))) = sort x"
proof -
  let ?zs = "zip x [0..<length x]"
  have "\<And>p. p \<in> set (sort_key fst ?zs) \<Longrightarrow> x ! snd p = fst p"
    by (auto simp: set_zip)
  then have "map (nth x) (map snd (sort_key fst ?zs)) = map fst (sort_key fst ?zs)"
    by simp
  then show ?thesis
    by (simp only: map_fst_argsort)
qed

lemma argsort_set:
  "set (map snd (sort_key fst (zip x [0..<length x]))) = {0..<length x}"
proof -
  let ?zs = "zip x [0..<length x]"
  have m: "map snd ?zs = [0..<length x]"
    by (rule map_snd_zip) simp
  have "set (map snd (sort_key fst ?zs)) = snd ` set (sort_key fst ?zs)"
    by (rule set_map)
  also have "\<dots> = snd ` set ?zs"
    by (simp only: set_sort)
  also have "\<dots> = set (map snd ?zs)"
    by (rule set_map[symmetric])
  also have "\<dots> = {0..<length x}"
    unfolding m by (rule set_upt)
  finally show ?thesis .
qed

lemma topk_full:
  "topk x (length x) =
     Inr (map fst (sort_key fst (zip x [0..<length x])), map snd (sort_key fst (zip x [0..<length x])))"
  by (simp add: topk_def Let_def)

section \<open>Claims about level assignment\<close>

text \<open>
  C2 (amended). For a positive \<open>finest_scale\<close>, \<open>num_levels\<close> at
  least 1 and an RoI whose
  product of width and height is not negative, \<open>map_roi_levels\<close> assigns the level
  \<open>clamp(floor(log2(sqrt((x2 - x1) * (y2 - y1)) / finest_scale + 1e-6)), 0, num_levels
  - 1)\<close>,
  an index between 0 and \<open>num_levels - 1\<close>.
\<close>

theorem map_roi_levels_wellformed:
  assumes "0 < finest_scale" and "1 \<le> num_levels" and "i < length rois"
    and "0 \<le> (x2 (rois ! i) - x1 (rois ! i)) * (y2 (rois ! i) - y1 (rois ! i))"
  shows "map_roi_levels finest_scale nan_long rois num_levels ! i =
           spec_level finest_scale num_levels (rois ! i) \<and>
         0 \<le> map_roi_levels finest_scale nan_long rois num_levels ! i \<and>
         map_roi_levels finest_scale nan_long rois num_levels ! i \<le> num_levels - 1"
proof -
  have nth: "map_roi_levels finest_scale nan_long rois num_levels ! i =
      map_roi_level finest_scale nan_long num_levels (rois ! i)"
    using assms(3) by (simp add: map_roi_levels_def)
  show ?thesis
    unfolding nth
    using map_roi_level_spec[OF assms(1,4,2)] map_roi_level_range[OF assms(1,4,2)]
    by simp
qed

text \<open>The theorem at a box of 10 by 10 and four levels.\<close>

theorem map_roi_levels_wellformed_witness:
  "map_roi_levels 56 0 [\<lparr>batch = 0, x1 = 0, y1 = 0, x2 = 10, y2 = 10\<rparr>] 4 ! 0 =
     spec_level 56 4 \<lparr>batch = 0, x1 = 0, y1 = 0, x2 = 10, y2 = 10\<rparr> \<and>
   0 \<le> map_roi_levels 56 0 [\<lparr>batch = 0, x1 = 0, y1 = 0, x2 = 10, y2 = 10\<rparr>] 4 ! 0 \<and>
   map_roi_levels 56 0 [\<lparr>batch = 0, x1 = 0, y1 = 0, x2 = 10, y2 = 10\<rparr>] 4 ! 0 \<le> 4 - 1"
  using map_roi_levels_wellformed
    [of 56 4 0 "[\<lparr>batch = 0, x1 = 0, y1 = 0, x2 = 10, y2 = 10\<rparr>]" 0]
  by simp

text \<open>
  C2 as stated fails: for a box with \<open>x2 < x1\<close> the float level is NaN, and
  where the
  conversion of NaN to an integer gives \<open>- 2 ^ 63\<close> the level index is negative.
\<close>

theorem map_roi_levels_malformed_out_of_range:
  "target_lvl_fp 56 4 \<lparr>batch = 0, x1 = 10, y1 = 0, x2 = 0, y2 = 10\<rparr> = NaN \<and>
   \<not> (0 \<le> map_roi_levels 56 (- 9223372036854775808)
              [\<lparr>batch = 0, x1 = 10, y1 = 0, x2 = 0, y2 = 10\<rparr>] 4 ! 0)"
  by (simp add: map_roi_levels_def map_roi_level_def target_lvl_fp_def roi_scale_def
      torch_sqrt_def)

text \<open>
  C4 (amended). For every RoI whose product of width and height is negative, the scale is
  not clamped: the scale is NaN, the float level is NaN, and the index returned is the
  platform's conversion of NaN to an integer.
\<close>

theorem map_roi_levels_malformed_nan:
  assumes "(x2 r - x1 r) * (y2 r - y1 r) < 0"
  shows "roi_scale r = NaN \<and> target_lvl_fp finest_scale num_levels r = NaN \<and>
         map_roi_levels finest_scale nan_long [r] num_levels = [nan_long]"
  using assms
  by (simp add: map_roi_levels_def map_roi_level_def target_lvl_fp_def roi_scale_def
      torch_sqrt_def)

text \<open>The theorem at a box with \<open>y2 < y1\<close>.\<close>

theorem map_roi_levels_malformed_nan_witness:
  "roi_scale \<lparr>batch = 0, x1 = 0, y1 = 20, x2 = 30, y2 = 5\<rparr> = NaN \<and>
   target_lvl_fp 56 4 \<lparr>batch = 0, x1 = 0, y1 = 20, x2 = 30, y2 = 5\<rparr> = NaN \<and>
   map_roi_levels 56 7 [\<lparr>batch = 0, x1 = 0, y1 = 20, x2 = 30, y2 = 5\<rparr>] 4 = [7]"
  using map_roi_levels_malformed_nan
    [of "\<lparr>batch = 0, x1 = 0, y1 = 20, x2 = 30, y2 = 5\<rparr>" 56 4 7]
  by simp

text \<open>
  C4 as stated fails: for a box with \<open>y2 < y1\<close> the scale is NaN, not a number
  clamped to
  0 or more, and the level before the conversion to an integer is NaN.
\<close>

theorem scale_not_clamped_counterexample:
  "roi_scale \<lparr>batch = 0, x1 = 0, y1 = 8, x2 = 8, y2 = 0\<rparr> = NaN \<and>
   target_lvl_fp 56 4 \<lparr>batch = 0, x1 = 0, y1 = 8, x2 = 8, y2 = 0\<rparr> = NaN"
  by (simp add: target_lvl_fp_def roi_scale_def torch_sqrt_def)

text \<open>
  C8. With \<open>finest_scale = 56\<close> and at least two levels, an RoI of scale exactly
  112 is
  assigned to level 1 and an RoI of scale 111.999 to level 0.
\<close>

theorem boundary_bands:
  assumes "2 \<le> num_levels"
    and "(x2 r - x1 r) * (y2 r - y1 r) = 112 * 112"
    and "(x2 r' - x1 r') * (y2 r' - y1 r') = (111999 / 1000) * (111999 / 1000)"
  shows "map_roi_levels 56 nan_long [r, r'] num_levels = [1, 0]"
proof -
  have "map_roi_level 56 nan_long num_levels r = min (int 1) (num_levels - 1)"
    by (rule map_roi_level_band[of 56 112]) (use assms(2) in simp_all)
  moreover have "map_roi_level 56 nan_long num_levels r' = min 0 (num_levels - 1)"
    by (rule map_roi_level_low[of 56 "111999 / 1000"]) (use assms(3) in simp_all)
  ultimately show ?thesis
    using assms(1) by (simp add: map_roi_levels_def)
qed

text \<open>The theorem at two square boxes of sides 112 and 111.999, with four levels.\<close>

theorem boundary_bands_witness:
  "map_roi_levels 56 0
     [\<lparr>batch = 0, x1 = 0, y1 = 0, x2 = 112, y2 = 112\<rparr>,
      \<lparr>batch = 0, x1 = 0, y1 = 0, x2 = 111999 / 1000, y2 = 111999 / 1000\<rparr>] 4 = [1, 0]"
  using boundary_bands[of 4 "\<lparr>batch = 0, x1 = 0, y1 = 0, x2 = 112, y2 = 112\<rparr>"
      "\<lparr>batch = 0, x1 = 0, y1 = 0, x2 = 111999 / 1000, y2 = 111999 / 1000\<rparr>" 0]
  by simp

text \<open>The level of an RoI depends on columns 1 to 4 only.\<close>

lemma map_roi_level_coords:
  assumes "x1 r = x1 r'" "y1 r = y1 r'" "x2 r = x2 r'" "y2 r = y2 r'"
  shows "map_roi_level fs nl K r = map_roi_level fs nl K r'"
  using assms by (simp add: map_roi_level_def target_lvl_fp_def roi_scale_def)

text \<open>
  C10. Two RoI sequences of equal length that agree in columns 1 to 4 of every RoI (they
  may differ in column 0, the batch index) get identical level assignments.
\<close>

theorem map_roi_levels_batch_independent:
  assumes "length rois = length rois'"
    and "\<forall>i<length rois. x1 (rois ! i) = x1 (rois' ! i) \<and> y1 (rois ! i) = y1 (rois' ! i) \<and>
           x2 (rois ! i) = x2 (rois' ! i) \<and> y2 (rois ! i) = y2 (rois' ! i)"
  shows "map_roi_levels finest_scale nan_long rois num_levels =
         map_roi_levels finest_scale nan_long rois' num_levels"
  unfolding map_roi_levels_def
  by (rule nth_equalityI) (use assms in \<open>auto intro: map_roi_level_coords\<close>)

text \<open>The theorem at two boxes that differ in the batch index only.\<close>

theorem map_roi_levels_batch_independent_witness:
  "map_roi_levels 56 0 [\<lparr>batch = 0, x1 = 0, y1 = 0, x2 = 112, y2 = 112\<rparr>] 4 =
   map_roi_levels 56 0 [\<lparr>batch = 3, x1 = 0, y1 = 0, x2 = 112, y2 = 112\<rparr>] 4"
  using map_roi_levels_batch_independent
    [of "[\<lparr>batch = 0, x1 = 0, y1 = 0, x2 = 112, y2 = 112\<rparr>]"
        "[\<lparr>batch = 3, x1 = 0, y1 = 0, x2 = 112, y2 = 112\<rparr>]" 56 0 4]
  by simp

section \<open>Reassembly of the pooled rows\<close>

lemma reassemble_eq:
  assumes "indices \<noteq> []" and "roi_feats \<noteq> []"
  shows "reassemble indices roi_feats =
     index_select (concat roi_feats)
       (map snd (sort_key fst (zip (concat indices) [0..<length (concat indices)])))"
  using assms by (simp add: reassemble_def torch_cat_def topk_full)

lemma run_poolers_rowwise:
  assumes "\<And>j rs. j < length zs \<Longrightarrow> snd (zs ! j) (fst (zs ! j)) rs = Some (map (pool (l + j)) rs)"
  shows "run_poolers lv rois l zs =
     map (\<lambda>k. map (pool k) (map (nth rois) (select_level lv k))) [l..<l + length zs]"
  using assms
proof (induction zs arbitrary: l)
  case Nil
  then show ?case by simp
next
  case (Cons z zs)
  obtain feat ex where z: "z = (feat, ex)" by (cases z)
  have hd: "ex feat rs = Some (map (pool l) rs)" for rs
    using Cons.prems[of 0 rs] by (simp add: z)
  have tl: "snd (zs ! j) (fst (zs ! j)) rs = Some (map (pool (Suc l + j)) rs)"
    if "j < length zs" for j rs
    using Cons.prems[of "Suc j" rs] that by simp
  have upt: "[l..<l + length (z # zs)] = l # [Suc l..<Suc l + length zs]"
    by (subst upt_rec) simp
  show ?case
    unfolding upt by (simp add: z hd Cons.IH[OF tl])
qed

lemma concat_level_rows:
  "concat (map (\<lambda>k. map (pool k) (map (nth rois) (select_level lv k))) ks) =
   map (\<lambda>i. pool (nat (lv ! i)) (rois ! i)) (concat (map (select_level lv) ks))"
proof -
  have "map (pool k) (map (nth rois) (select_level lv k)) =
      map (\<lambda>i. pool (nat (lv ! i)) (rois ! i)) (select_level lv k)" for k
    by (simp add: select_level_filter)
  then have "map (\<lambda>k. map (pool k) (map (nth rois) (select_level lv k))) ks =
      map (map (\<lambda>i. pool (nat (lv ! i)) (rois ! i))) (map (select_level lv) ks)"
    by (simp only: map_map comp_def)
  then show ?thesis
    by (simp only: map_concat)
qed

lemma reassemble_rows:
  assumes "indices \<noteq> []" and "roi_feats \<noteq> []"
    and "concat roi_feats = map F (concat indices)"
  shows "reassemble indices roi_feats = Inr (map F (sort (concat indices)))"
proof -
  let ?idx = "concat indices"
  let ?perm = "map snd (sort_key fst (zip ?idx [0..<length ?idx]))"
  have bound: "p < length ?idx" if "p \<in> set ?perm" for p
    using that unfolding argsort_set by simp
  have "reassemble indices roi_feats = index_select (map F ?idx) ?perm"
    using reassemble_eq[OF assms(1,2)] assms(3) by simp
  also have "\<dots> = Inr (map (nth (map F ?idx)) ?perm)"
    by (rule index_select_ok) (simp add: bound)
  also have "map (nth (map F ?idx)) ?perm = map F (map (nth ?idx) ?perm)"
    using bound by simp
  also have "map (nth ?idx) ?perm = sort ?idx"
    by (rule argsort_nth)
  finally show ?thesis .
qed

lemma sort_eq_upt:
  assumes "mset xs = mset [0..<n]"
  shows "sort xs = [0..<n]"
  by (rule properties_for_sort) (simp_all add: assms del: mset_upt)

lemma levels_in_range:
  assumes "0 < fs" and "1 \<le> K" and "\<forall>r\<in>set rois. 0 \<le> (x2 r - x1 r) * (y2 r - y1 r)"
    and "i < length (map_roi_levels fs nl rois (int K))"
  shows "0 \<le> map_roi_levels fs nl rois (int K) ! i \<and> map_roi_levels fs nl rois (int K) ! i < int K"
proof -
  have i: "i < length rois" using assms(4) by (simp add: map_roi_levels_def)
  then have "0 \<le> (x2 (rois ! i) - x1 (rois ! i)) * (y2 (rois ! i) - y1 (rois ! i))"
    using assms(3) by simp
  from map_roi_level_range[OF assms(1) this, of "int K" nl] assms(2) i
  show ?thesis by (simp add: map_roi_levels_def)
qed

lemma select_level_mem:
  "i \<in> set (select_level lv l) \<longleftrightarrow> i < length lv \<and> lv ! i = int l"
  by (auto simp: select_level_filter)

lemma forward_multi_rowwise:
  assumes "0 < fs" and "2 \<le> length feats" and "length roi_layers = length feats"
    and "\<forall>r\<in>set rois. 0 \<le> (x2 r - x1 r) * (y2 r - y1 r)"
    and "\<forall>l<length feats. \<forall>rs. (roi_layers ! l) (feats ! l) rs = Some (map (pool l) rs)"
  shows "forward fs nl rescale roi_layers feats rois sf =
     Inr (map (\<lambda>r. pool (nat (map_roi_level fs nl (int (length feats)) r))
                     (pooled_box rescale (length feats) sf r)) rois)"
proof -
  let ?K = "length feats"
  let ?lv = "map_roi_levels fs nl rois (int ?K)"
  let ?rois' = "case sf of None \<Rightarrow> rois | Some s \<Rightarrow> roi_rescale rescale rois s"
  let ?zs = "zip feats roi_layers"
  let ?I = "map (select_level ?lv) [0..<?K]"
  let ?F = "\<lambda>i. pool (nat (?lv ! i)) (?rois' ! i)"
  have lenlv: "length ?lv = length rois" by (simp add: map_roi_levels_def)
  have lenzs: "length ?zs = ?K" using assms(3) by simp
  have row: "snd (?zs ! j) (fst (?zs ! j)) rs = Some (map (pool (0 + j)) rs)"
    if "j < length ?zs" for j rs
    using that assms(3,5) by simp
  have R: "run_poolers ?lv ?rois' 0 ?zs =
      map (\<lambda>k. map (pool k) (map (nth ?rois') (select_level ?lv k))) [0..<?K]"
    using run_poolers_rowwise[of ?zs pool 0 ?lv ?rois', OF row] lenzs by simp
  have route: "forward_route fs nl rescale roi_layers feats rois sf =
      Inr (?I, run_poolers ?lv ?rois' 0 ?zs)"
    using forward_route_eq[of fs nl rescale roi_layers feats rois sf] assms(3) by simp
  have ne: "?I \<noteq> []" "run_poolers ?lv ?rois' 0 ?zs \<noteq> []"
    using assms(2) unfolding R by auto
  have cat: "concat (run_poolers ?lv ?rois' 0 ?zs) = map ?F (concat ?I)"
    unfolding R by (rule concat_level_rows)
  have "mset (concat ?I) = mset [0..<length ?lv]"
    by (rule mset_concat_select_all) (use levels_in_range[OF assms(1) _ assms(4)] assms(2) in auto)
  then have srt: "sort (concat ?I) = [0..<length rois]"
    unfolding lenlv by (rule sort_eq_upt)
  have "forward fs nl rescale roi_layers feats rois sf =
      reassemble ?I (run_poolers ?lv ?rois' 0 ?zs)"
    using assms(2) by (simp add: forward_def route)
  also have "\<dots> = Inr (map ?F [0..<length rois])"
    using reassemble_rows[OF ne cat] srt by simp
  also have "map ?F [0..<length rois] =
      map (\<lambda>r. pool (nat (map_roi_level fs nl (int ?K) r)) (pooled_box rescale ?K sf r)) rois"
    using assms(2)
    by (intro nth_equalityI)
      (auto simp: map_roi_levels_def pooled_box_def roi_rescale_def split: option.split)
  finally show ?thesis .
qed

section \<open>Row counts when a pooler raises\<close>

lemma run_poolers_length_le:
  assumes "\<And>j rs out. j < length zs \<Longrightarrow> snd (zs ! j) (fst (zs ! j)) rs = Some out \<Longrightarrow>
             length out = length rs"
  shows "length (concat (run_poolers lv rois l zs)) \<le>
         length (concat (map (select_level lv) [l..<l + length zs]))"
  using assms
proof (induction zs arbitrary: l)
  case Nil
  then show ?case by simp
next
  case (Cons z zs)
  obtain feat ex where z: "z = (feat, ex)" by (cases z)
  have hd: "length out = length rs" if "ex feat rs = Some out" for rs out
    using Cons.prems[of 0 rs out] that by (simp add: z)
  have tl: "length out = length rs"
    if "j < length zs" "snd (zs ! j) (fst (zs ! j)) rs = Some out" for j rs out
    using Cons.prems[of "Suc j" rs out] that by simp
  have upt: "[l..<l + length (z # zs)] = l # [Suc l..<Suc l + length zs]"
    by (subst upt_rec) simp
  define A where "A = length (concat (run_poolers lv rois (Suc l) zs))"
  define B where "B = length (concat (map (select_level lv) [Suc l..<Suc l + length zs]))"
  have "length (concat (run_poolers lv rois (Suc l) zs)) \<le>
      length (concat (map (select_level lv) [Suc l..<Suc l + length zs]))"
    by (rule Cons.IH) (rule tl)
  then have AB: "A \<le> B" by (simp only: A_def B_def)
  have rhs: "length (concat (map (select_level lv) [l..<l + length (z # zs)])) =
      length (select_level lv l) + B"
    unfolding upt B_def by (simp only: list.map concat.simps length_append)
  have lhs: "length (concat (run_poolers lv rois l (z # zs))) \<le> length (select_level lv l) + A"
    unfolding A_def by (auto simp: z split: option.split dest: hd)
  show ?case
    unfolding rhs using lhs AB by linarith
qed

lemma run_poolers_length_less:
  assumes "\<And>j rs out. j < length zs \<Longrightarrow> snd (zs ! j) (fst (zs ! j)) rs = Some out \<Longrightarrow>
             length out = length rs"
    and "j < length zs"
    and "snd (zs ! j) (fst (zs ! j)) (map (nth rois) (select_level lv (l + j))) = None"
    and "select_level lv (l + j) \<noteq> []"
  shows "length (concat (run_poolers lv rois l zs)) <
         length (concat (map (select_level lv) [l..<l + length zs]))"
  using assms
proof (induction zs arbitrary: l j)
  case Nil
  then show ?case by simp
next
  case (Cons z zs)
  obtain feat ex where z: "z = (feat, ex)" by (cases z)
  have hd: "length out = length rs" if "ex feat rs = Some out" for rs out
    using Cons.prems(1)[of 0 rs out] that by (simp add: z)
  have tl: "length out = length rs"
    if "i < length zs" "snd (zs ! i) (fst (zs ! i)) rs = Some out" for i rs out
    using Cons.prems(1)[of "Suc i" rs out] that by simp
  have upt: "[l..<l + length (z # zs)] = l # [Suc l..<Suc l + length zs]"
    by (subst upt_rec) simp
  define A where "A = length (concat (run_poolers lv rois (Suc l) zs))"
  define B where "B = length (concat (map (select_level lv) [Suc l..<Suc l + length zs]))"
  have "length (concat (run_poolers lv rois (Suc l) zs)) \<le>
      length (concat (map (select_level lv) [Suc l..<Suc l + length zs]))"
    by (rule run_poolers_length_le) (rule tl)
  then have AB: "A \<le> B" by (simp only: A_def B_def)
  have rhs: "length (concat (map (select_level lv) [l..<l + length (z # zs)])) =
      length (select_level lv l) + B"
    unfolding upt B_def by (simp only: list.map concat.simps length_append)
  have lhs: "length (concat (run_poolers lv rois l (z # zs))) \<le> length (select_level lv l) + A"
    unfolding A_def by (auto simp: z split: option.split dest: hd)
  show ?case
  proof (cases j)
    case 0
    then have "ex feat (map (nth rois) (select_level lv l)) = None"
      using Cons.prems(3) by (simp add: z)
    then have "length (concat (run_poolers lv rois l (z # zs))) = A"
      unfolding A_def by (simp add: z)
    moreover have "0 < length (select_level lv l)"
      using Cons.prems(4) 0 by simp
    ultimately show ?thesis
      unfolding rhs using AB by linarith
  next
    case (Suc j')
    have "length (concat (run_poolers lv rois (Suc l) zs)) <
        length (concat (map (select_level lv) [Suc l..<Suc l + length zs]))"
      by (rule Cons.IH[of j']) (use Cons.prems(2,3,4) Suc tl in auto)
    then have "A < B" by (simp only: A_def B_def)
    then show ?thesis
      unfolding rhs using lhs by linarith
  qed
qed

lemma reassemble_short:
  assumes "length (concat roi_feats) < length (concat indices)"
  shows "\<exists>e. reassemble indices roi_feats = Inl e"
proof (cases "roi_feats = []")
  case True
  then show ?thesis
    by (simp add: reassemble_def torch_cat_def topk_full)
next
  case False
  let ?idx = "concat indices"
  let ?perm = "map snd (sort_key fst (zip ?idx [0..<length ?idx]))"
  have ne: "indices \<noteq> []" using assms by auto
  have "length ?idx - 1 \<in> set ?perm"
    unfolding argsort_set using assms by simp
  moreover have "\<not> length ?idx - 1 < length (concat roi_feats)"
    using assms by simp
  ultimately have "\<not> list_all (\<lambda>i. i < length (concat roi_feats)) ?perm"
    unfolding list_all_iff by blast
  then show ?thesis
    unfolding reassemble_eq[OF ne False] by (simp add: index_select_def)
qed

lemma run_poolers_no_rois:
  assumes "\<And>j. j < length zs \<Longrightarrow> snd (zs ! j) (fst (zs ! j)) [] = Some []"
  shows "run_poolers [] [] l zs = replicate (length zs) []"
  using assms
proof (induction zs arbitrary: l)
  case Nil
  then show ?case by simp
next
  case (Cons z zs)
  obtain feat ex where z: "z = (feat, ex)" by (cases z)
  have hd: "ex feat [] = Some []"
    using Cons.prems[of 0] by (simp add: z)
  have tl: "snd (zs ! j) (fst (zs ! j)) [] = Some []" if "j < length zs" for j
    using Cons.prems[of "Suc j"] that by simp
  show ?case
    by (simp add: z hd select_level_def nonzero_def Cons.IH[OF tl])
qed

section \<open>Levels of the example boxes\<close>

lemma level_box_10: "map_roi_level 56 nl 2 box_10 = 0"
  using map_roi_level_low[of 56 10 box_10 nl 2] by simp

lemma level_box_112: "map_roi_level 56 nl 2 box_112 = 1"
  using map_roi_level_band[of 56 112 box_112 1 nl 2] by simp

lemma select_level_two:
  "select_level [a, b] l = (if a = int l then [0] else []) @ (if b = int l then [1] else [])"
  by (simp add: select_level_def nonzero_def upt_rec)

section \<open>Claims about the forward pass\<close>

text \<open>
  C1 (amended). For a pyramid of K levels (K at least 1) with one pooler per level, a
  positive \<open>finest_scale\<close> and an RoI sequence of length N in which no RoI has a
  negative product of width and height: when every level pooler succeeds, pooling each RoI
  it is given on its own (\<open>pool l\<close> at level \<open>l\<close>),
  \<open>forward\<close> returns N rows and row i is the pooled feature of
  \<open>rois[i]\<close>, pooled at the level assigned to it.
\<close>

theorem forward_rows_in_input_order:
  assumes "0 < finest_scale" and "1 \<le> length feats" and "length roi_layers = length feats"
    and "\<forall>r\<in>set rois. 0 \<le> (x2 r - x1 r) * (y2 r - y1 r)"
    and "\<forall>l<length feats. \<forall>rs. (roi_layers ! l) (feats ! l) rs = Some (map (pool l) rs)"
  shows "forward finest_scale nan_long rescale roi_layers feats rois roi_scale_factor =
     Inr (map (\<lambda>r. pool (nat (map_roi_level finest_scale nan_long (int (length feats)) r))
                     (pooled_box rescale (length feats) roi_scale_factor r)) rois)"
proof (cases "length feats = 1")
  case True
  obtain ex rest where rl: "roi_layers = ex # rest"
    using assms(3) True by (cases roi_layers) auto
  have call: "ex (feats ! 0) rois = Some (map (pool 0) rois)"
    using assms(5) True by (simp add: rl)
  have "map_roi_level finest_scale nan_long 1 r = 0" if "r \<in> set rois" for r
    using map_roi_level_range[of finest_scale r 1 nan_long] assms(1,4) that by simp
  then have "map (pool 0) rois =
      map (\<lambda>r. pool (nat (map_roi_level finest_scale nan_long (int (length feats)) r))
                  (pooled_box rescale (length feats) roi_scale_factor r)) rois"
    using True by (simp add: pooled_box_def)
  then show ?thesis
    using True by (simp add: forward_def rl call)
next
  case False
  then have "2 \<le> length feats" using assms(2) by simp
  then show ?thesis
    by (rule forward_multi_rowwise[OF assms(1) _ assms(3,4,5)])
qed

text \<open>
  The theorem at two levels and two boxes, the larger one first: the rows come back in the
  input order, each tagged with the feature map of its level.
\<close>

theorem forward_rows_in_input_order_witness:
  "forward 56 0 (\<lambda>s r. r)
     [\<lambda>f rs. Some (map (Pair f) rs), \<lambda>f rs. Some (map (Pair f) rs)] [10 :: nat, 20]
     [box_112, box_10] None = Inr [(20, box_112), (10, box_10)]"
  using forward_rows_in_input_order
    [of 56 "[10 :: nat, 20]" "[\<lambda>f rs. Some (map (Pair f) rs), \<lambda>f rs. Some (map (Pair f) rs)]"
        "[box_112, box_10]" "\<lambda>l. Pair ([10 :: nat, 20] ! l)" 0 "\<lambda>s r. r" None]
  by (simp add: level_box_10 level_box_112 pooled_box_def less_Suc_eq)

text \<open>
  C1 as stated fails: with two levels and one box with \<open>x2 < x1\<close>, where the
  conversion of NaN to an integer gives \<open>- 2 ^ 63\<close>, both poolers succeed and
  \<open>forward\<close> returns no row at all for the one RoI.
\<close>

theorem forward_drops_malformed_roi:
  "forward 56 (- 9223372036854775808) (\<lambda>s r. r)
     [\<lambda>f rs. Some rs, \<lambda>f rs. Some rs] [(), ()]
     [\<lparr>batch = 0, x1 = 50, y1 = 0, x2 = 0, y2 = 50\<rparr>] None = Inr []"
proof -
  have lv: "map_roi_levels 56 (- 9223372036854775808)
      [\<lparr>batch = 0, x1 = 50, y1 = 0, x2 = 0, y2 = 50\<rparr>] 2 = [- 9223372036854775808]"
    by (simp add: map_roi_levels_def map_roi_level_malformed)
  have sel: "select_level [- 9223372036854775808] l = []" for l
    by (simp add: select_level_def nonzero_def)
  show ?thesis
    by (simp add: forward_def forward_route_eq lv sel upt_rec reassemble_def torch_cat_def
        topk_def index_select_def)
qed

text \<open>
  C3. Let every pooler that returns give as many rows as it was given RoIs. If the pooler of
  a level that is handed at least one RoI raises, \<open>forward\<close> raises: no output
  with fewer rows is returned.
\<close>

theorem pooler_failure_is_fatal:
  assumes "1 \<le> length feats" and "length roi_layers = length feats"
    and "\<forall>k<length feats. \<forall>rs out.
           (roi_layers ! k) (feats ! k) rs = Some out \<longrightarrow> length out = length rs"
    and "l < length feats"
    and "level_rois fs nl rescale (length feats) rois sf l \<noteq> []"
    and "(roi_layers ! l) (feats ! l) (level_rois fs nl rescale (length feats) rois sf l) = None"
  shows "\<exists>e. forward fs nl rescale roi_layers feats rois sf = Inl e"
proof (cases "length feats = 1")
  case True
  then have l0: "l = 0" using assms(4) by simp
  obtain ex rest where rl: "roi_layers = ex # rest"
    using assms(2) True by (cases roi_layers) auto
  have "ex (feats ! 0) rois = None"
    using assms(6) True by (simp add: level_rois_def l0 rl)
  then show ?thesis
    using True by (simp add: forward_def rl)
next
  case False
  let ?lv = "map_roi_levels fs nl rois (int (length feats))"
  let ?rois' = "case sf of None \<Rightarrow> rois | Some s \<Rightarrow> roi_rescale rescale rois s"
  let ?zs = "zip feats roi_layers"
  let ?I = "map (select_level ?lv) [0..<length feats]"
  have lr: "level_rois fs nl rescale (length feats) rois sf l =
      map (nth ?rois') (select_level ?lv l)"
    using False by (simp add: level_rois_def)
  have route: "forward_route fs nl rescale roi_layers feats rois sf =
      Inr (?I, run_poolers ?lv ?rois' 0 ?zs)"
    using forward_route_eq[of fs nl rescale roi_layers feats rois sf] assms(2) by simp
  have contract: "length out = length rs"
    if "j < length ?zs" "snd (?zs ! j) (fst (?zs ! j)) rs = Some out" for j rs out
    using that assms(2,3) by simp
  have "length (concat (run_poolers ?lv ?rois' 0 ?zs)) <
      length (concat (map (select_level ?lv) [0..<0 + length ?zs]))"
  proof (rule run_poolers_length_less[where j = l])
    show "l < length ?zs" using assms(2,4) by simp
    show "snd (?zs ! l) (fst (?zs ! l)) (map (nth ?rois') (select_level ?lv (0 + l))) = None"
      using assms(2,4,6) unfolding lr by simp
    show "select_level ?lv (0 + l) \<noteq> []"
      using assms(5) unfolding lr by simp
  qed (rule contract)
  then have "length (concat (run_poolers ?lv ?rois' 0 ?zs)) < length (concat ?I)"
    using assms(2) by simp
  from reassemble_short[OF this] show ?thesis
    using False by (simp add: forward_def route)
qed

text \<open>
  The theorem at two levels, one box for each, where the pooler of level 1 raises.
\<close>

theorem pooler_failure_is_fatal_witness:
  "\<exists>e. forward 56 0 (\<lambda>s r. r) [\<lambda>f rs. Some rs, \<lambda>f rs. None] [(), ()]
          [box_10, box_112] None = Inl e"
  using pooler_failure_is_fatal
    [of "[(), ()]" "[\<lambda>f rs. Some rs, \<lambda>f rs. None]" 1 56 0 "\<lambda>s r. r" "[box_10, box_112]" None]
  by (simp add: less_Suc_eq level_rois_def map_roi_levels_def level_box_10 level_box_112
      select_level_two)

text \<open>
  C5. With and without a scale factor, the per-level index lists that \<open>forward\<close>
  computes are the same: the selection by the levels that \<open>map_roi_levels\<close>
  assigns to the boxes as given.
\<close>

theorem routing_ignores_rescale:
  "\<exists>roi_feats roi_feats0.
     forward_route finest_scale nan_long rescale roi_layers feats rois (Some s) =
       Inr (map (select_level (map_roi_levels finest_scale nan_long rois (int (length feats))))
              [0..<min (length feats) (length roi_layers)], roi_feats) \<and>
     forward_route finest_scale nan_long rescale roi_layers feats rois None =
       Inr (map (select_level (map_roi_levels finest_scale nan_long rois (int (length feats))))
              [0..<min (length feats) (length roi_layers)], roi_feats0)"
  by (simp add: forward_route_eq)

text \<open>
  C6. With exactly one feature map, \<open>forward\<close> is the direct call of the pooler
  of level 0 on the full, unmodified RoI sequence, whatever the scale factor.
\<close>

theorem single_level_bypass:
  "forward finest_scale nan_long rescale (extractor # others) [feat] rois roi_scale_factor =
     spec_pool_directly extractor feat rois"
  by (simp add: forward_def spec_pool_directly_def)

text \<open>
  C7 (amended). For a pyramid of K levels (K at least 1) with one pooler per level, a
  positive \<open>finest_scale\<close> and N RoIs none of which has a negative product of
  width and height, the K per-level index lists computed in \<open>forward\<close> partition
  the indices 0 to N - 1: together they hold each index exactly once, their sizes add up to
  N, and each index is in the list of exactly one level.
\<close>

theorem level_index_sets_partition:
  assumes "0 < finest_scale" and "1 \<le> length feats" and "length roi_layers = length feats"
    and "\<forall>r\<in>set rois. 0 \<le> (x2 r - x1 r) * (y2 r - y1 r)"
  shows "\<exists>indices roi_feats.
     forward_route finest_scale nan_long rescale roi_layers feats rois roi_scale_factor =
       Inr (indices, roi_feats) \<and>
     length indices = length feats \<and>
     mset (concat indices) = mset [0..<length rois] \<and>
     sum_list (map length indices) = length rois \<and>
     (\<forall>i<length rois. \<exists>!l. l < length feats \<and> i \<in> set (indices ! l))"
proof -
  let ?K = "length feats"
  let ?lv = "map_roi_levels finest_scale nan_long rois (int ?K)"
  let ?I = "map (select_level ?lv) [0..<?K]"
  have lenlv: "length ?lv = length rois" by (simp add: map_roi_levels_def)
  have rng: "0 \<le> ?lv ! i \<and> ?lv ! i < int ?K" if "i < length ?lv" for i
    using levels_in_range[OF assms(1,2,4) that] .
  have route: "\<exists>roi_feats. forward_route finest_scale nan_long rescale roi_layers feats rois
      roi_scale_factor = Inr (?I, roi_feats)"
    using forward_route_eq[of finest_scale nan_long rescale roi_layers feats rois roi_scale_factor]
      assms(3) by simp
  have ms: "mset (concat ?I) = mset [0..<length rois]"
    using mset_concat_select_all[of ?lv ?K] rng unfolding lenlv by blast
  have "sum_list (map length ?I) = length (concat ?I)"
    by (simp only: length_concat)
  also have "\<dots> = size (mset (concat ?I))"
    by (simp only: size_mset)
  also have "\<dots> = length rois"
    unfolding ms by simp
  finally have sm: "sum_list (map length ?I) = length rois" .
  have uniq: "\<exists>!l. l < ?K \<and> i \<in> set (?I ! l)" if "i < length rois" for i
  proof -
    have i: "i < length ?lv" using that lenlv by simp
    have r: "0 \<le> ?lv ! i" "?lv ! i < int ?K" using rng[OF i] by simp_all
    show ?thesis
    proof (rule ex1I[of _ "nat (?lv ! i)"])
      show "nat (?lv ! i) < ?K \<and> i \<in> set (?I ! nat (?lv ! i))"
        using r i by (simp add: select_level_mem)
    next
      fix l assume "l < ?K \<and> i \<in> set (?I ! l)"
      then show "l = nat (?lv ! i)"
        by (auto simp: select_level_mem)
    qed
  qed
  from route obtain roi_feats where
    "forward_route finest_scale nan_long rescale roi_layers feats rois roi_scale_factor =
       Inr (?I, roi_feats)" by blast
  then show ?thesis
    using ms sm uniq by (intro exI[of _ ?I] exI[of _ roi_feats]) simp
qed

text \<open>
  The theorem at two levels and two boxes.
\<close>

theorem level_index_sets_partition_witness:
  "\<exists>indices roi_feats.
     forward_route 56 0 (\<lambda>s r. r) [\<lambda>f rs. Some rs, \<lambda>f rs. Some rs] [(), ()]
       [box_112, box_10] None = Inr (indices, roi_feats) \<and>
     length indices = length [(), ()] \<and>
     mset (concat indices) = mset [0..<length [box_112, box_10]] \<and>
     sum_list (map length indices) = length [box_112, box_10] \<and>
     (\<forall>i<length [box_112, box_10]. \<exists>!l. l < length [(), ()] \<and> i \<in> set (indices ! l))"
  using level_index_sets_partition
    [of 56 "[(), ()]" "[\<lambda>f rs. Some rs, \<lambda>f rs. Some rs]" "[box_112, box_10]" 0 "\<lambda>s r. r" None]
  by simp

text \<open>
  C7 as stated fails: with two levels and one box with \<open>y2 < y1\<close>, where the
  conversion of NaN to an integer gives \<open>- 2 ^ 63\<close>, index 0 is in the list of
  no level and the sizes add up to 0.
\<close>

theorem malformed_roi_in_no_level:
  "forward_route 56 (- 9223372036854775808) (\<lambda>s r. r)
     [\<lambda>f rs. Some rs, \<lambda>f rs. Some rs] [(), ()]
     [\<lparr>batch = 0, x1 = 0, y1 = 30, x2 = 30, y2 = 0\<rparr>] None = Inr ([[], []], [[], []])"
proof -
  have lv: "map_roi_levels 56 (- 9223372036854775808)
      [\<lparr>batch = 0, x1 = 0, y1 = 30, x2 = 30, y2 = 0\<rparr>] 2 = [- 9223372036854775808]"
    by (simp add: map_roi_levels_def map_roi_level_malformed)
  have sel: "select_level [- 9223372036854775808] l = []" for l
    by (simp add: select_level_def nonzero_def)
  show ?thesis
    by (simp add: forward_route_eq lv sel upt_rec)
qed

text \<open>
  C9. For an empty RoI sequence and a pyramid of K levels (K at least 1) with one pooler per
  level, each returning an empty batch for no RoIs, \<open>forward\<close> returns a tensor
  of 0 rows and does not raise.
\<close>

theorem forward_no_rois:
  assumes "1 \<le> length feats" and "length roi_layers = length feats"
    and "\<forall>l<length feats. (roi_layers ! l) (feats ! l) [] = Some []"
  shows "forward finest_scale nan_long rescale roi_layers feats [] roi_scale_factor = Inr []"
proof (cases "length feats = 1")
  case True
  obtain ex rest where rl: "roi_layers = ex # rest"
    using assms(2) True by (cases roi_layers) auto
  have "ex (feats ! 0) [] = Some []"
    using assms(3) True by (simp add: rl)
  then show ?thesis
    using True by (simp add: forward_def rl)
next
  case False
  let ?zs = "zip feats roi_layers"
  have K: "2 \<le> length feats" using False assms(1) by simp
  have rs: "(case roi_scale_factor of None \<Rightarrow> [] | Some s \<Rightarrow> roi_rescale rescale [] s) = []"
    by (simp add: roi_rescale_def split: option.split)
  have "snd (?zs ! j) (fst (?zs ! j)) [] = Some []" if "j < length ?zs" for j
    using that assms(2,3) by simp
  then have R: "run_poolers [] [] 0 ?zs = replicate (length feats) []"
    using run_poolers_no_rois[of ?zs 0] assms(2) by simp
  have sel: "map (select_level []) [0..<length feats] = replicate (length feats) []"
    by (rule nth_equalityI) (simp_all add: select_level_def nonzero_def)
  have route: "forward_route finest_scale nan_long rescale roi_layers feats [] roi_scale_factor =
      Inr (replicate (length feats) [], replicate (length feats) [])"
    using forward_route_eq[of finest_scale nan_long rescale roi_layers feats "[]" roi_scale_factor]
      assms(2) by (simp add: map_roi_levels_def rs R sel)
  have "reassemble (replicate (length feats) ([] :: nat list)) (replicate (length feats) []) = Inr []"
    using K by (auto simp: reassemble_def torch_cat_def topk_def index_select_def)
  then show ?thesis
    using False by (simp add: forward_def route)
qed

text \<open>
  The theorem at two levels, with a scale factor.
\<close>

theorem forward_no_rois_witness:
  "forward 56 0 (\<lambda>s r. r) [\<lambda>f rs. Some rs, \<lambda>f rs. Some rs] [(), ()] [] (Some 2) = Inr []"
  using forward_no_rois
    [of "[(), ()]" "[\<lambda>f rs. Some rs, \<lambda>f rs. Some rs]" 56 0 "\<lambda>s r. r" "Some 2"]
  by (simp add: less_Suc_eq)

end
